theory Spec2Isabelle
  imports Complex_Main
begin

section \<open>The playback queue of the voice bot (src/audio.py)\<close>

text \<open>
  \<^verbatim>\<open>Audio\<close> objects are mutable and shared by reference: the forward queue, the history
  and the current slot of an \<^verbatim>\<open>AudioQueue\<close> hold references to them, and
  \<^verbatim>\<open>refresh\<close> and \<^verbatim>\<open>set_end_time\<close> update an object in place. The model therefore
  keeps an explicit store of \<^verbatim>\<open>Audio\<close> objects, addressed by references, and the
  containers hold references.

  The services the code calls but does not own (the HTTP probe \<^verbatim>\<open>requests.head\<close>, the
  resolver \<^verbatim>\<open>youtube_client.get_audio\<close>, the clock \<^verbatim>\<open>datetime.now\<close> and the event bus
  \<^verbatim>\<open>post_event\<close>) are effects: every call is appended to a trace, and what a service
  answers is a parameter (the \<open>world\<close>) that may depend on everything that happened
  before. An exception that leaves a method is a result \<open>Inl\<close>, which carries the
  exception and the state at the moment it was raised: what the method had changed by then
  stays changed. Calls of \<^verbatim>\<open>logging\<close> change neither the state nor the control flow
  and are left out. The coroutines \<^verbatim>\<open>append\<close>, \<^verbatim>\<open>append_left\<close>, \<^verbatim>\<open>restart_queue\<close> and
  \<^verbatim>\<open>_add_to_queue\<close> contain no suspension point of their own, so they run as plain
  sequential code.
\<close>

subsection \<open>Data\<close>

type_synonym ref = nat

text \<open>
  A Python float: a finite value (idealised as a real), an infinity or not-a-number.
\<close>

datatype pyfloat = Float real | Infinity | Minus_infinity | NaN

text \<open>
  The dataclass \<^verbatim>\<open>Audio\<close>. The three Discord handles are opaque; \<^verbatim>\<open>length\<close> is a
  Python float (seconds); \<^verbatim>\<open>end_time\<close> is a datetime, counted in seconds since
  0001-01-01 00:00, declared \<^verbatim>\<open>field(init=False)\<close> and unset until
  \<^verbatim>\<open>set_end_time\<close> runs.
\<close>

record audio =
  author :: nat
  voice_channel :: nat
  text_channel :: nat
  audio_url :: string
  webpage_url :: string
  title :: string
  length_audio :: pyfloat
  thumbnail :: string
  end_time :: "real option"

text \<open>
  What \<^verbatim>\<open>get_audio\<close> hands back on success: the five keys \<^verbatim>\<open>refresh\<close> reads. The
  resolver is not part of the sources; its contract (a complete entry, or nothing, never an
  exception) is taken from the interface description of the track resolver.
\<close>

record entry =
  entry_audio_url :: string
  entry_webpage_url :: string
  entry_title :: string
  entry_length :: pyfloat
  entry_thumbnail :: string

text \<open>
  The exceptions that can leave a method of \<^verbatim>\<open>Audio\<close> or \<^verbatim>\<open>AudioQueue\<close>:
  \<^verbatim>\<open>IndexError\<close> from \<^verbatim>\<open>popleft\<close>/\<^verbatim>\<open>pop\<close> on an empty deque; the exceptions of
  \<^verbatim>\<open>requests.head\<close> that \<^verbatim>\<open>is_stale\<close> does not catch (a URL without scheme, with an
  unsupported scheme or without host, and any other \<^verbatim>\<open>RequestException\<close> outside the three
  caught classes); \<^verbatim>\<open>OverflowError\<close> and \<^verbatim>\<open>ValueError\<close> from the datetime arithmetic
  of \<^verbatim>\<open>set_end_time\<close>.
\<close>

datatype error =
    IndexError
  | MissingSchema
  | InvalidSchema
  | InvalidURL
  | RequestException
  | OverflowError
  | ValueError

text \<open>
  What \<^verbatim>\<open>requests.head\<close> does: it returns a response with a status code, raises one of
  the connection errors that \<^verbatim>\<open>is_stale\<close> catches, or raises something else.
\<close>

datatype connection_error = MaxRetryError | NewConnectionError | ConnectionError

datatype head_result = Response int | Raises connection_error | Raises_uncaught error

datatype event = New_audio ref | No_audio | Queue_update

datatype effect =
    Head_request string
  | Get_audio string
  | Datetime_now
  | Post_event event

record world =
  head :: "effect list \<Rightarrow> string \<Rightarrow> head_result"
  get_audio :: "effect list \<Rightarrow> string \<Rightarrow> entry option"
  datetime_now :: "effect list \<Rightarrow> real"

text \<open>
  The fields of \<^verbatim>\<open>AudioQueue\<close> (the slot \<^verbatim>\<open>_current_audio\<close> is \<open>current_audio\<close>; the
  opaque \<^verbatim>\<open>event_loop\<close> handle is only passed on to \<^verbatim>\<open>post_event\<close> and is left out),
  together with the store of \<^verbatim>\<open>Audio\<close> objects and the trace of effects. The two bounds
  are Python ints and may be negative.
\<close>

record state =
  max_queue_size :: int
  max_previous_queue_size :: int
  queue :: "ref list"
  previous_queue :: "ref list"
  current_audio :: "ref option"
  heap :: "ref \<Rightarrow> audio"
  trace :: "effect list"

type_synonym 'a result = "(error \<times> state) + 'a"

text \<open>
  An argument of \<^verbatim>\<open>append\<close>/\<^verbatim>\<open>append_left\<close>: Python does not enforce the annotation
  \<^verbatim>\<open>audio: Audio\<close>, and \<^verbatim>\<open>_add_to_queue\<close> checks \<^verbatim>\<open>isinstance(audio, Audio)\<close> itself.
\<close>

datatype pyval = PyNone | PyAudio ref | PyStr string | PyInt int

fun isinstance_Audio :: "pyval \<Rightarrow> bool" where
  "isinstance_Audio (PyAudio a) = True"
| "isinstance_Audio v = False"

subsection \<open>Audio\<close>

definition post_event :: "event \<Rightarrow> state \<Rightarrow> state" where
  "post_event e s = s\<lparr>trace := trace s @ [Post_event e]\<rparr>"

definition is_stale :: "world \<Rightarrow> state \<Rightarrow> ref \<Rightarrow> (bool \<times> state) result" where
  "is_stale w s a =
     (let url = audio_url (heap s a);
          s1 = s\<lparr>trace := trace s @ [Head_request url]\<rparr>
      in case head w (trace s) url of
           Response status_code \<Rightarrow> Inr (status_code \<noteq> 200, s1)
         | Raises connection_error \<Rightarrow> Inr (True, s1)
         | Raises_uncaught e \<Rightarrow> Inl (e, s1))"

definition refresh :: "world \<Rightarrow> state \<Rightarrow> ref \<Rightarrow> bool \<times> state" where
  "refresh w s a =
     (let query = webpage_url (heap s a);
          s1 = s\<lparr>trace := trace s @ [Get_audio query]\<rparr>
      in case get_audio w (trace s) query of
           Some e \<Rightarrow>
             (True,
              s1\<lparr>heap := (heap s1)(a := (heap s1 a)
                    \<lparr>audio_url := entry_audio_url e,
                     webpage_url := entry_webpage_url e,
                     title := entry_title e,
                     length_audio := entry_length e,
                     thumbnail := entry_thumbnail e\<rparr>)\<rparr>)
         | None \<Rightarrow> (False, s1))"

text \<open>
  \<^verbatim>\<open>timedelta(seconds=x)\<close>: \<^verbatim>\<open>ValueError\<close> for not-a-number, \<^verbatim>\<open>OverflowError\<close> for an
  infinity and for a value whose days exceed 999999999 in magnitude. A datetime plus a
  timedelta: \<^verbatim>\<open>OverflowError\<close> when the result is not between 0001-01-01 and the end of
  9999-12-31, which are 3652059 days. Rounding to microseconds is left out.
\<close>

definition timedelta :: "pyfloat \<Rightarrow> error + real" where
  "timedelta x =
     (case x of
        Float r \<Rightarrow>
          if - 86399999913600 \<le> r \<and> r < 86400000000000 then Inr r else Inl OverflowError
      | Infinity \<Rightarrow> Inl OverflowError
      | Minus_infinity \<Rightarrow> Inl OverflowError
      | NaN \<Rightarrow> Inl ValueError)"

definition datetime_plus :: "real \<Rightarrow> real \<Rightarrow> error + real" where
  "datetime_plus t d =
     (if 0 \<le> t + d \<and> t + d < 315537897600 then Inr (t + d) else Inl OverflowError)"

text \<open>
  \<^verbatim>\<open>self.end_time = datetime.now() + timedelta(seconds=self.length) - timedelta(seconds=offset)\<close>,
  evaluated from left to right: the clock is read first, and nothing is assigned when one of
  the four steps after it raises.
\<close>

definition set_end_time :: "world \<Rightarrow> state \<Rightarrow> ref \<Rightarrow> int \<Rightarrow> state result" where
  "set_end_time w s a offset =
     (let now = datetime_now w (trace s);
          s1 = s\<lparr>trace := trace s @ [Datetime_now]\<rparr>
      in case timedelta (length_audio (heap s a)) of
           Inl e \<Rightarrow> Inl (e, s1)
         | Inr d \<Rightarrow>
             (case datetime_plus now d of
                Inl e \<Rightarrow> Inl (e, s1)
              | Inr t \<Rightarrow>
                  (case timedelta (Float (real_of_int offset)) of
                     Inl e \<Rightarrow> Inl (e, s1)
                   | Inr d' \<Rightarrow>
                       (case datetime_plus t (- d') of
                          Inl e \<Rightarrow> Inl (e, s1)
                        | Inr t' \<Rightarrow>
                            Inr (s1\<lparr>heap := (heap s1)(a := (heap s1 a)
                                   \<lparr>end_time := Some t'\<rparr>)\<rparr>)))))"

subsection \<open>AudioQueue\<close>

definition init :: "int \<Rightarrow> int \<Rightarrow> (ref \<Rightarrow> audio) \<Rightarrow> state" where
  "init mq mp h =
     \<lparr>max_queue_size = mq, max_previous_queue_size = mp, queue = [], previous_queue = [],
      current_audio = None, heap = h, trace = []\<rparr>"

text \<open>
  The setter of the property \<^verbatim>\<open>current_audio\<close>. An \<^verbatim>\<open>Audio\<close> object is always truthy
  (the dataclass defines neither \<^verbatim>\<open>__bool__\<close> nor \<^verbatim>\<open>__len__\<close>), so
  \<^verbatim>\<open>if audio\<close> tests for \<^verbatim>\<open>None\<close>. The result of \<^verbatim>\<open>refresh\<close> is dropped. An
  exception of \<^verbatim>\<open>is_stale\<close> leaves the setter before \<^verbatim>\<open>_current_audio\<close> is assigned, an
  exception of \<^verbatim>\<open>set_end_time\<close> after that and before the event is published.
\<close>

definition set_current_audio :: "world \<Rightarrow> state \<Rightarrow> ref option \<Rightarrow> state result" where
  "set_current_audio w s audio =
     (case (case audio of
              None \<Rightarrow> Inr s
            | Some a \<Rightarrow>
                (case is_stale w s a of
                   Inl x \<Rightarrow> Inl x
                 | Inr (stale, s') \<Rightarrow> Inr (if stale then snd (refresh w s' a) else s'))) of
        Inl x \<Rightarrow> Inl x
      | Inr s1 \<Rightarrow>
          (let s2 = s1\<lparr>current_audio := audio\<rparr>
           in case current_audio s2 of
                Some a \<Rightarrow>
                  (case set_end_time w s2 a 0 of
                     Inl x \<Rightarrow> Inl x
                   | Inr s3 \<Rightarrow> Inr (post_event (New_audio a) s3))
              | None \<Rightarrow> Inr (post_event No_audio s2)))"

definition get_current_audio :: "state \<Rightarrow> ref option" where
  "get_current_audio s = current_audio s"

definition add_to_previous_queue :: "state \<Rightarrow> ref \<Rightarrow> state result" where
  "add_to_previous_queue s audio =
     (if int (length (previous_queue s)) > max_previous_queue_size s then
        (case previous_queue s of
           [] \<Rightarrow> Inl (IndexError, s)
         | oldest # rest \<Rightarrow> Inr (s\<lparr>previous_queue := rest @ [audio]\<rparr>))
      else Inr (s\<lparr>previous_queue := previous_queue s @ [audio]\<rparr>))"

definition get_next_audio :: "world \<Rightarrow> state \<Rightarrow> (ref option \<times> state) result" where
  "get_next_audio w s =
     (if length (queue s) > 0 then
        (case (case current_audio s of
                 Some c \<Rightarrow> add_to_previous_queue s c
               | None \<Rightarrow> Inr s) of
           Inl x \<Rightarrow> Inl x
         | Inr s1 \<Rightarrow>
             (case queue s1 of
                [] \<Rightarrow> Inl (IndexError, s1)
              | next_audio # rest \<Rightarrow>
                  (case set_current_audio w (s1\<lparr>queue := rest\<rparr>) (Some next_audio) of
                     Inl x \<Rightarrow> Inl x
                   | Inr s2 \<Rightarrow> Inr (Some next_audio, s2))))
      else
        (case (case current_audio s of
                 Some c \<Rightarrow> add_to_previous_queue s c
               | None \<Rightarrow> Inr s) of
           Inl x \<Rightarrow> Inl x
         | Inr s1 \<Rightarrow>
             (case set_current_audio w s1 None of
                Inl x \<Rightarrow> Inl x
              | Inr s2 \<Rightarrow> Inr (None, s2))))"

definition get_previous_audio :: "world \<Rightarrow> state \<Rightarrow> (ref option \<times> state) result" where
  "get_previous_audio w s =
     (if length (previous_queue s) > 0 then
        (let s1 = (case current_audio s of
                     Some c \<Rightarrow> s\<lparr>queue := c # queue s\<rparr>
                   | None \<Rightarrow> s)
         in if previous_queue s1 = [] then Inl (IndexError, s1)
            else
              (let previous_audio = last (previous_queue s1);
                   s2 = s1\<lparr>previous_queue := butlast (previous_queue s1)\<rparr>
               in case set_current_audio w s2 (Some previous_audio) of
                    Inl x \<Rightarrow> Inl x
                  | Inr s3 \<Rightarrow> Inr (Some previous_audio, s3)))
      else Inr (None, s))"

definition is_below_max_queue_size :: "state \<Rightarrow> bool" where
  "is_below_max_queue_size s = (int (length (queue s)) < max_queue_size s)"

definition add_to_queue :: "world \<Rightarrow> state \<Rightarrow> pyval \<Rightarrow> bool \<Rightarrow> state result" where
  "add_to_queue w s audio add_to_start =
     (case audio of
        PyAudio a \<Rightarrow>
          (if is_below_max_queue_size s then
             (let s1 = (if add_to_start then s\<lparr>queue := a # queue s\<rparr>
                        else s\<lparr>queue := queue s @ [a]\<rparr>)
              in if current_audio s1 = None then
                   (case get_next_audio w s1 of
                      Inl e \<Rightarrow> Inl e
                    | Inr (r, s2) \<Rightarrow> Inr s2)
                 else Inr (post_event Queue_update s1))
           else Inr s)
      | _ \<Rightarrow> Inr s)"

definition append :: "world \<Rightarrow> state \<Rightarrow> pyval \<Rightarrow> state result" where
  "append w s audio = add_to_queue w s audio False"

definition append_left :: "world \<Rightarrow> state \<Rightarrow> pyval \<Rightarrow> state result" where
  "append_left w s audio = add_to_queue w s audio True"

text \<open>\<^verbatim>\<open>restart_queue\<close> passes the current slot, whatever it holds, to \<^verbatim>\<open>append_left\<close>.\<close>

definition restart_queue :: "world \<Rightarrow> state \<Rightarrow> state result" where
  "restart_queue w s =
     (case append_left w s (case current_audio s of
                              None \<Rightarrow> PyNone
                            | Some c \<Rightarrow> PyAudio c) of
        Inl e \<Rightarrow> Inl e
      | Inr s1 \<Rightarrow>
          (let s2 = s1\<lparr>queue := previous_queue s1 @ queue s1\<rparr>;
               s3 = s2\<lparr>previous_queue := []\<rparr>
           in case get_next_audio w s3 of
                Inl e \<Rightarrow> Inl e
              | Inr (r, s4) \<Rightarrow> Inr s4))"

definition clear_next_queue :: "state \<Rightarrow> state" where
  "clear_next_queue s = post_event Queue_update (s\<lparr>queue := []\<rparr>)"

definition clear_previous_queue :: "state \<Rightarrow> state" where
  "clear_previous_queue s = post_event Queue_update (s\<lparr>previous_queue := []\<rparr>)"

definition reset_queue :: "state \<Rightarrow> state" where
  "reset_queue s = (clear_previous_queue (clear_next_queue s))\<lparr>current_audio := None\<rparr>"

definition remove_current_audio :: "world \<Rightarrow> state \<Rightarrow> (string option \<times> state) result" where
  "remove_current_audio w s =
     (case get_current_audio s of
        Some c \<Rightarrow>
          (let t = title (heap s c);
               s1 = s\<lparr>current_audio := None\<rparr>
           in case get_next_audio w s1 of
                Inl e \<Rightarrow> Inl e
              | Inr (r, s2) \<Rightarrow> Inr (Some t, s2))
      | None \<Rightarrow> Inr (None, s))"

subsection \<open>Callers: sequences of operations\<close>

datatype operation =
    Append pyval
  | Append_left pyval
  | Get_next_audio
  | Get_previous_audio
  | Restart_queue
  | Remove_current_audio
  | Reset_queue

fun apply_operation :: "world \<Rightarrow> state \<Rightarrow> operation \<Rightarrow> state result" where
  "apply_operation w s (Append v) = append w s v"
| "apply_operation w s (Append_left v) = append_left w s v"
| "apply_operation w s Get_next_audio = map_sum id snd (get_next_audio w s)"
| "apply_operation w s Get_previous_audio = map_sum id snd (get_previous_audio w s)"
| "apply_operation w s Restart_queue = restart_queue w s"
| "apply_operation w s Remove_current_audio = map_sum id snd (remove_current_audio w s)"
| "apply_operation w s Reset_queue = Inr (reset_queue s)"

text \<open>A caller that performs one operation after the other and stops at the first exception.\<close>

fun run :: "world \<Rightarrow> state \<Rightarrow> operation list \<Rightarrow> state result" where
  "run w s [] = Inr s"
| "run w s (x # xs) =
     (case apply_operation w s x of
        Inl e \<Rightarrow> Inl e
      | Inr s' \<Rightarrow> run w s' xs)"

text \<open>
  A caller that drains the queue: \<^verbatim>\<open>get_next_audio\<close> again and again until it returns
  \<^verbatim>\<open>None\<close>. Every call that returns a track has shortened the forward queue.
\<close>

function drain :: "world \<Rightarrow> state \<Rightarrow> state result" where
  "drain w s =
     (case get_next_audio w s of
        Inl e \<Rightarrow> Inl e
      | Inr (None, s') \<Rightarrow> Inr s'
      | Inr (Some a, s') \<Rightarrow> drain w s')"
  by pat_completeness auto
termination
  by (relation "measure (\<lambda>(w, s). length (queue s))")
     (auto simp: get_next_audio_def add_to_previous_queue_def set_current_audio_def
             post_event_def set_end_time_def is_stale_def refresh_def Let_def
           split: if_splits option.splits sum.splits list.splits prod.splits head_result.splits)

text \<open>Draining after an earlier result: nothing is drained after an exception.\<close>

definition then_drain :: "world \<Rightarrow> state result \<Rightarrow> state result" where
  "then_drain w r = (case r of Inl e \<Rightarrow> Inl e | Inr s \<Rightarrow> drain w s)"

text \<open>
  A caller that only appends: each call is the argument and the flag \<^verbatim>\<open>add_to_start\<close>
  (\<open>False\<close> for \<^verbatim>\<open>append\<close>, \<open>True\<close> for \<^verbatim>\<open>append_left\<close>). An append is accepted when it
  passes both checks of \<^verbatim>\<open>_add_to_queue\<close>; the run counts the accepted ones.
\<close>

definition accepted :: "state \<Rightarrow> pyval \<Rightarrow> bool" where
  "accepted s v = (isinstance_Audio v \<and> is_below_max_queue_size s)"

fun appends :: "world \<Rightarrow> state \<Rightarrow> (pyval \<times> bool) list \<Rightarrow> (state \<times> nat) result" where
  "appends w s [] = Inr (s, 0)"
| "appends w s ((v, add_to_start) # cs) =
     (case add_to_queue w s v add_to_start of
        Inl e \<Rightarrow> Inl e
      | Inr s' \<Rightarrow>
          (case appends w s' cs of
             Inl e \<Rightarrow> Inl e
           | Inr (s'', n) \<Rightarrow> Inr (s'', (if accepted s v then 1 else 0) + n)))"

subsection \<open>Notions of the specification\<close>

text \<open>The references an \<^verbatim>\<open>AudioQueue\<close> holds: forward queue, history, current slot.\<close>

definition occupant :: "ref option \<Rightarrow> ref list" where
  "occupant x = (case x of None \<Rightarrow> [] | Some c \<Rightarrow> [c])"

definition held :: "state \<Rightarrow> ref list" where
  "held s = queue s @ previous_queue s @ occupant (current_audio s)"

text \<open>
  No aliasing: no \<^verbatim>\<open>Audio\<close> object is referenced twice, neither from two containers nor
  twice from one.
\<close>

definition no_aliasing :: "state \<Rightarrow> bool" where
  "no_aliasing s = distinct (held s)"

text \<open>
  An operation respects ownership when it hands the queue nothing the queue already holds:
  an append brings an object that is not held, and \<^verbatim>\<open>restart_queue\<close> is called when it
  will not re-enqueue the current track (the slot is empty, or the forward queue is full and
  the re-enqueue is rejected).
\<close>

fun respects_ownership :: "state \<Rightarrow> operation \<Rightarrow> bool" where
  "respects_ownership s (Append (PyAudio a)) = (a \<notin> set (held s))"
| "respects_ownership s (Append_left (PyAudio a)) = (a \<notin> set (held s))"
| "respects_ownership s Restart_queue =
     (current_audio s = None \<or> \<not> is_below_max_queue_size s)"
| "respects_ownership s x = True"

fun admissible :: "world \<Rightarrow> state \<Rightarrow> operation list \<Rightarrow> bool" where
  "admissible w s [] = True"
| "admissible w s (x # xs) =
     (respects_ownership s x \<and>
      (case apply_operation w s x of
         Inl e \<Rightarrow> True
       | Inr s' \<Rightarrow> admissible w s' xs))"

text \<open>The two capacity bounds, as the specification words them.\<close>

definition queue_within_bound :: "state \<Rightarrow> bool" where
  "queue_within_bound s = (int (length (queue s)) \<le> max_queue_size s)"

definition history_within_bound :: "state \<Rightarrow> bool" where
  "history_within_bound s = (int (length (previous_queue s)) \<le> max_previous_queue_size s)"


text \<open>The tracks played: the payloads of the \<^verbatim>\<open>new_audio\<close> events, in the order published.\<close>

fun played :: "effect list \<Rightarrow> ref list" where
  "played [] = []"
| "played (Post_event (New_audio a) # tr) = a # played tr"
| "played (x # tr) = played tr"

text \<open>
  The state a call leaves behind, whether it returned or raised. (A call that returns a
  value as well is first reduced to its state with \<open>map_sum id snd\<close>.)
\<close>

definition outcome_state :: "state result \<Rightarrow> state" where
  "outcome_state r = (case r of Inl (e, s) \<Rightarrow> s | Inr s \<Rightarrow> s)"

text \<open>
  When promoting a track cannot fail. \<^verbatim>\<open>set_end_time()\<close> with offset 0 succeeds exactly
  when the duration is a finite float within the range of a timedelta and the clock plus the
  duration is within the range of a datetime. The surroundings are safe for promotion when
  no probe raises an exception that \<^verbatim>\<open>is_stale\<close> does not catch, and the duration of every
  track, and of every entry the resolver may return, gives an end time at every reading of
  the clock.
\<close>

definition end_time_exists :: "real \<Rightarrow> pyfloat \<Rightarrow> bool" where
  "end_time_exists now x =
     (case x of
        Float r \<Rightarrow>
          - 86399999913600 \<le> r \<and> r < 86400000000000 \<and> 0 \<le> now + r \<and> now + r < 315537897600
      | Infinity \<Rightarrow> False
      | Minus_infinity \<Rightarrow> False
      | NaN \<Rightarrow> False)"

definition promotion_safe :: "world \<Rightarrow> state \<Rightarrow> bool" where
  "promotion_safe w s =
     ((\<forall>tr url e. head w tr url \<noteq> Raises_uncaught e)
      \<and> (\<forall>tr a. end_time_exists (datetime_now w tr) (length_audio (heap s a)))
      \<and> (\<forall>tr tr' query e. get_audio w tr query = Some e \<longrightarrow>
            end_time_exists (datetime_now w tr') (entry_length e)))"

subsection \<open>Concrete surroundings for test runs\<close>

text \<open>
  The clock stands at 2026-01-01 00:00, which is 63902822400 seconds after 0001-01-01.
  In the quiet world every link is alive and the resolver finds nothing.
\<close>

definition quiet_world :: world where
  "quiet_world =
     \<lparr>head = (\<lambda>tr url. Response 200), get_audio = (\<lambda>tr query. None),
      datetime_now = (\<lambda>tr. 63902822400)\<rparr>"

text \<open>Every link is dead and the resolver answers with a fresh entry.\<close>

definition fresh_entry :: entry where
  "fresh_entry =
     \<lparr>entry_audio_url = ''https://cdn/b'', entry_webpage_url = ''https://site/b'',
      entry_title = ''b'', entry_length = Float 240, entry_thumbnail = ''https://cdn/b.jpg''\<rparr>"

definition stale_world :: world where
  "stale_world =
     \<lparr>head = (\<lambda>tr url. Response 403), get_audio = (\<lambda>tr query. Some fresh_entry),
      datetime_now = (\<lambda>tr. 63902822400)\<rparr>"

text \<open>No link can be reached and the resolver finds nothing.\<close>

definition offline_world :: world where
  "offline_world =
     \<lparr>head = (\<lambda>tr url. Raises ConnectionError), get_audio = (\<lambda>tr query. None),
      datetime_now = (\<lambda>tr. 63902822400)\<rparr>"

text \<open>
  A world in which \<^verbatim>\<open>requests.head\<close> refuses a URL that does not start with \<^verbatim>\<open>http\<close>, as
  it does for a URL without scheme, and every other link is alive.
\<close>

definition schema_world :: world where
  "schema_world =
     \<lparr>head = (\<lambda>tr url. if take 4 url = ''http'' then Response 200
                       else Raises_uncaught MissingSchema),
      get_audio = (\<lambda>tr query. None), datetime_now = (\<lambda>tr. 63902822400)\<rparr>"

definition played_tracks :: "state \<Rightarrow> ref list" where
  "played_tracks s = played (trace s)"

definition track :: audio where
  "track =
     \<lparr>author = 0, voice_channel = 0, text_channel = 0, audio_url = ''https://cdn/a'',
      webpage_url = ''https://site/a'', title = ''a'', length_audio = Float 180,
      thumbnail = ''https://cdn/a.jpg'', end_time = None\<rparr>"

text \<open>
  Three stores: all tracks alike; track 1 with a stream URL that has no scheme; track 1 with
  a duration of 300000000000 seconds, which is more than is left until the year 9999.
\<close>

definition tracks :: "ref \<Rightarrow> audio" where
  "tracks = (\<lambda>a. track)"

definition tracks_no_scheme :: "ref \<Rightarrow> audio" where
  "tracks_no_scheme = tracks(1 := track\<lparr>audio_url := ''cdn/a''\<rparr>)"

definition tracks_endless :: "ref \<Rightarrow> audio" where
  "tracks_endless = tracks(1 := track\<lparr>length_audio := Float 300000000000\<rparr>)"

section \<open>Frame lemmas\<close>

lemma post_event_fields [simp]:
  "queue (post_event e s) = queue s"
  "previous_queue (post_event e s) = previous_queue s"
  "max_queue_size (post_event e s) = max_queue_size s"
  "max_previous_queue_size (post_event e s) = max_previous_queue_size s"
  "current_audio (post_event e s) = current_audio s"
  "heap (post_event e s) = heap s"
  by (simp_all add: post_event_def)

lemma played_append: "played (xs @ ys) = played xs @ played ys"
  by (induction xs rule: played.induct) auto

lemma set_current_audio_None:
  "set_current_audio w s None =
     Inr (s\<lparr>current_audio := None, trace := trace s @ [Post_event No_audio]\<rparr>)"
  by (simp add: set_current_audio_def post_event_def)

lemmas setter_defs = set_current_audio_def post_event_def set_end_time_def is_stale_def
  refresh_def Let_def

lemma set_current_audio_Inr:
  assumes "set_current_audio w s x = Inr s'"
  shows "queue s' = queue s" "previous_queue s' = previous_queue s"
    "max_queue_size s' = max_queue_size s"
    "max_previous_queue_size s' = max_previous_queue_size s"
    "current_audio s' = x"
    "played (trace s') = played (trace s) @ occupant x"
  using assms
  by (auto simp: setter_defs played_append occupant_def
      split: option.splits sum.splits prod.splits head_result.splits if_splits)

lemma set_current_audio_Inl:
  assumes "set_current_audio w s x = Inl (e, s')"
  shows "queue s' = queue s" "previous_queue s' = previous_queue s"
    "max_queue_size s' = max_queue_size s"
    "max_previous_queue_size s' = max_previous_queue_size s"
    "current_audio s' = current_audio s \<or> current_audio s' = x"
    "played (trace s') = played (trace s)"
  using assms
  by (auto simp: setter_defs played_append
      split: option.splits sum.splits prod.splits head_result.splits if_splits)

section \<open>When promotion cannot fail\<close>

lemma promotion_safe_updates [simp]:
  "promotion_safe w (s\<lparr>queue := q\<rparr>) = promotion_safe w s"
  "promotion_safe w (s\<lparr>previous_queue := p\<rparr>) = promotion_safe w s"
  "promotion_safe w (s\<lparr>current_audio := c\<rparr>) = promotion_safe w s"
  "promotion_safe w (s\<lparr>trace := t\<rparr>) = promotion_safe w s"
  "promotion_safe w (post_event e s) = promotion_safe w s"
  by (simp_all add: promotion_safe_def post_event_def)

lemma refresh_safe: "promotion_safe w s \<Longrightarrow> promotion_safe w (snd (refresh w s a))"
  by (auto simp: promotion_safe_def refresh_def Let_def split: option.splits)

lemma is_stale_safe:
  assumes "promotion_safe w s"
  shows "\<exists>stale. is_stale w s a =
           Inr (stale, s\<lparr>trace := trace s @ [Head_request (audio_url (heap s a))]\<rparr>)"
proof (cases "head w (trace s) (audio_url (heap s a))")
  case (Raises_uncaught e)
  with assms show ?thesis by (simp add: promotion_safe_def)
qed (auto simp: is_stale_def Let_def)

lemma set_end_time_safe:
  assumes "promotion_safe w s"
  shows "\<exists>s'. set_end_time w s a 0 = Inr s' \<and> promotion_safe w s'"
proof -
  have "end_time_exists (datetime_now w (trace s)) (length_audio (heap s a))"
    using assms by (simp add: promotion_safe_def)
  then obtain t where t: "set_end_time w s a 0 =
      Inr (s\<lparr>trace := trace s @ [Datetime_now],
             heap := (heap s)(a := (heap s a)\<lparr>end_time := Some t\<rparr>)\<rparr>)"
    by (auto simp: set_end_time_def end_time_exists_def timedelta_def datetime_plus_def Let_def
        split: pyfloat.splits)
  moreover have "promotion_safe w (s\<lparr>trace := trace s @ [Datetime_now],
             heap := (heap s)(a := (heap s a)\<lparr>end_time := Some t\<rparr>)\<rparr>)"
    using assms by (simp add: promotion_safe_def)
  ultimately show ?thesis by simp
qed

lemma set_current_audio_safe:
  assumes "promotion_safe w s"
  shows "\<exists>s'. set_current_audio w s x = Inr s' \<and> promotion_safe w s'"
proof (cases x)
  case None
  with assms show ?thesis by (simp add: set_current_audio_None)
next
  case (Some a)
  obtain stale where st: "is_stale w s a =
      Inr (stale, s\<lparr>trace := trace s @ [Head_request (audio_url (heap s a))]\<rparr>)"
    using is_stale_safe [OF assms] by blast
  define s1 where "s1 = s\<lparr>trace := trace s @ [Head_request (audio_url (heap s a))]\<rparr>"
  define s2 where "s2 = (if stale then snd (refresh w s1 a) else s1)"
  have "promotion_safe w s1" using assms by (simp add: s1_def)
  then have "promotion_safe w (s2\<lparr>current_audio := Some a\<rparr>)"
    by (simp add: s2_def refresh_safe)
  then obtain s3 where s3: "set_end_time w (s2\<lparr>current_audio := Some a\<rparr>) a 0 = Inr s3"
    "promotion_safe w s3"
    using set_end_time_safe by blast
  have "is_stale w s a = Inr (stale, s1)" using st by (simp add: s1_def)
  then have "set_current_audio w s x = Inr (post_event (New_audio a) s3)"
    using Some s3(1) unfolding set_current_audio_def s2_def by simp
  then show ?thesis using s3(2) by simp
qed

lemma set_current_audio_keeps_safe:
  assumes "set_current_audio w s x = Inr s'" "promotion_safe w s"
  shows "promotion_safe w s'"
  using set_current_audio_safe [OF assms(2), of x] assms(1) by auto

section \<open>What one call of the navigation does\<close>

lemma add_to_previous_queue_total:
  "0 \<le> max_previous_queue_size s \<or> previous_queue s \<noteq> [] \<Longrightarrow>
   \<exists>s'. add_to_previous_queue s c = Inr s'"
  by (auto simp: add_to_previous_queue_def split: list.splits)

lemma add_to_previous_queue_frame:
  assumes "add_to_previous_queue s c = Inr s'"
  shows "queue s' = queue s" "current_audio s' = current_audio s"
    "max_queue_size s' = max_queue_size s"
    "max_previous_queue_size s' = max_previous_queue_size s"
    "trace s' = trace s" "heap s' = heap s"
    "previous_queue s' = previous_queue s @ [c] \<or> previous_queue s' = tl (previous_queue s) @ [c]"
  using assms by (auto simp: add_to_previous_queue_def split: if_splits list.splits)

lemma add_to_previous_queue_safe:
  "add_to_previous_queue s c = Inr s' \<Longrightarrow> promotion_safe w s' = promotion_safe w s"
  by (auto simp: add_to_previous_queue_def split: if_splits list.splits)

lemma get_next_audio_Inr:
  assumes "get_next_audio w s = Inr (r, s')"
  obtains s1 where
    "case current_audio s of None \<Rightarrow> s1 = s | Some c \<Rightarrow> add_to_previous_queue s c = Inr s1"
    "case queue s of
       [] \<Rightarrow> r = None \<and> set_current_audio w s1 None = Inr s'
     | x # xs \<Rightarrow> r = Some x \<and> set_current_audio w (s1\<lparr>queue := xs\<rparr>) (Some x) = Inr s'"
  using assms
  by (auto simp: get_next_audio_def add_to_previous_queue_def
      split: if_splits option.splits sum.splits list.splits)

lemma get_next_audio_total:
  assumes "current_audio s = None \<or> 0 \<le> max_previous_queue_size s \<or> previous_queue s \<noteq> []"
    and "promotion_safe w s"
  shows "\<exists>r s'. get_next_audio w s = Inr (r, s') \<and> promotion_safe w s'"
proof -
  obtain s1 where s1: "(case current_audio s of Some c \<Rightarrow> add_to_previous_queue s c
                        | None \<Rightarrow> Inr s) = Inr s1"
    using assms(1) add_to_previous_queue_total by (cases "current_audio s") auto
  then have q: "queue s1 = queue s" and safe: "promotion_safe w s1"
    using assms(2)
    by (auto split: option.splits dest: add_to_previous_queue_frame(1)
        simp: add_to_previous_queue_safe)
  show ?thesis
  proof (cases "queue s")
    case Nil
    obtain s' where "set_current_audio w s1 None = Inr s'" "promotion_safe w s'"
      using set_current_audio_safe [OF safe] by blast
    then show ?thesis using Nil s1 by (simp add: get_next_audio_def)
  next
    case (Cons x xs)
    have "promotion_safe w (s1\<lparr>queue := xs\<rparr>)" using safe by simp
    then obtain s' where "set_current_audio w (s1\<lparr>queue := xs\<rparr>) (Some x) = Inr s'"
      "promotion_safe w s'"
      using set_current_audio_safe by blast
    then show ?thesis using Cons s1 q by (simp add: get_next_audio_def)
  qed
qed

lemma get_next_audio_step:
  assumes "get_next_audio w s = Inr (r, s')"
  shows "r = (case queue s of [] \<Rightarrow> None | x # xs \<Rightarrow> Some x)"
    "queue s' = tl (queue s)"
    "played (trace s') = played (trace s) @ take 1 (queue s)"
    "max_queue_size s' = max_queue_size s"
    "max_previous_queue_size s' = max_previous_queue_size s"
    "current_audio s' = r"
proof -
  from assms obtain s1 where
    s1: "case current_audio s of None \<Rightarrow> s1 = s | Some c \<Rightarrow> add_to_previous_queue s c = Inr s1"
    and c: "case queue s of
       [] \<Rightarrow> r = None \<and> set_current_audio w s1 None = Inr s'
     | x # xs \<Rightarrow> r = Some x \<and> set_current_audio w (s1\<lparr>queue := xs\<rparr>) (Some x) = Inr s'"
    by (rule get_next_audio_Inr)
  have f: "trace s1 = trace s" "max_queue_size s1 = max_queue_size s"
    "max_previous_queue_size s1 = max_previous_queue_size s"
    using s1 by (auto split: option.splits dest: add_to_previous_queue_frame)
  show "r = (case queue s of [] \<Rightarrow> None | x # xs \<Rightarrow> Some x)"
    using c by (auto split: list.splits)
  show "queue s' = tl (queue s)"
    using c s1 by (auto split: list.splits option.splits
        dest!: set_current_audio_Inr(1) add_to_previous_queue_frame(1))
  show "played (trace s') = played (trace s) @ take 1 (queue s)"
    using c f(1) by (auto split: list.splits dest!: set_current_audio_Inr(6) simp: occupant_def)
  show "max_queue_size s' = max_queue_size s"
    using c f(2) by (auto split: list.splits dest!: set_current_audio_Inr(3))
  show "max_previous_queue_size s' = max_previous_queue_size s"
    using c f(3) by (auto split: list.splits dest!: set_current_audio_Inr(4))
  show "current_audio s' = r"
    using c by (auto split: list.splits dest!: set_current_audio_Inr(5))
qed

lemma get_next_audio_bounds:
  assumes "get_next_audio w s = Inr (r, s')"
  shows "max_queue_size s' = max_queue_size s"
    "max_previous_queue_size s' = max_previous_queue_size s"
    "length (queue s') \<le> length (queue s)"
  using get_next_audio_step [OF assms] by simp_all

lemma get_next_audio_no_aliasing:
  assumes "get_next_audio w s = Inr (r, s')" "no_aliasing s"
  shows "no_aliasing s'"
proof -
  from assms(1) obtain s1 where
    s1: "case current_audio s of None \<Rightarrow> s1 = s | Some c \<Rightarrow> add_to_previous_queue s c = Inr s1"
    and c: "case queue s of
       [] \<Rightarrow> r = None \<and> set_current_audio w s1 None = Inr s'
     | x # xs \<Rightarrow> r = Some x \<and> set_current_audio w (s1\<lparr>queue := xs\<rparr>) (Some x) = Inr s'"
    by (rule get_next_audio_Inr)
  have d: "distinct (queue s1 @ previous_queue s1)" and q: "queue s1 = queue s"
    using s1 assms(2)
    by (auto simp: no_aliasing_def held_def occupant_def add_to_previous_queue_def
        split: option.splits if_splits list.splits)
  show ?thesis
  proof (cases "queue s")
    case Nil
    with c have "set_current_audio w s1 None = Inr s'" by simp
    from set_current_audio_Inr [OF this] d show ?thesis
      by (simp add: no_aliasing_def held_def occupant_def)
  next
    case (Cons x xs)
    with c have "set_current_audio w (s1\<lparr>queue := xs\<rparr>) (Some x) = Inr s'" by simp
    from set_current_audio_Inr [OF this] d q Cons show ?thesis
      by (auto simp: no_aliasing_def held_def occupant_def)
  qed
qed

lemma get_previous_audio_Inr:
  assumes "get_previous_audio w s = Inr (r, s')"
  obtains "previous_queue s = []" "r = None" "s' = s"
  | p x where "previous_queue s = p @ [x]" "r = Some x"
      "set_current_audio w
         ((case current_audio s of Some c \<Rightarrow> s\<lparr>queue := c # queue s\<rparr> | None \<Rightarrow> s)
            \<lparr>previous_queue := p\<rparr>) (Some x)
       = Inr s'"
proof (cases "previous_queue s" rule: rev_cases)
  case Nil
  with assms have "r = None" "s' = s" by (simp_all add: get_previous_audio_def)
  with Nil show ?thesis by (rule that(1))
next
  case (snoc p x)
  have "previous_queue (case current_audio s of Some c \<Rightarrow> s\<lparr>queue := c # queue s\<rparr> | None \<Rightarrow> s)
        = p @ [x]"
    using snoc by (simp split: option.splits)
  with assms snoc have a: "set_current_audio w
         ((case current_audio s of Some c \<Rightarrow> s\<lparr>queue := c # queue s\<rparr> | None \<Rightarrow> s)
            \<lparr>previous_queue := p\<rparr>) (Some x)
       = Inr s'" and b: "r = Some x"
    by (simp_all add: get_previous_audio_def Let_def split: sum.splits)
  show ?thesis by (rule that(2) [OF snoc b a])
qed

lemma get_previous_audio_no_aliasing:
  assumes "get_previous_audio w s = Inr (r, s')" "no_aliasing s"
  shows "no_aliasing s'"
  using assms(1)
proof (cases rule: get_previous_audio_Inr)
  case 1
  with assms(2) show ?thesis by simp
next
  case (2 p x)
  from set_current_audio_Inr [OF 2(3)] 2(1) assms(2) show ?thesis
    by (auto simp: no_aliasing_def held_def occupant_def split: option.splits)
qed

section \<open>What one call of the admission does\<close>

lemma add_to_queue_rejected:
  "\<not> accepted s v \<Longrightarrow> add_to_queue w s v b = Inr s"
  by (cases v) (simp_all add: accepted_def add_to_queue_def)

lemma add_to_queue_unfold:
  assumes "accepted s (PyAudio a)"
  shows "add_to_queue w s (PyAudio a) b =
      (if current_audio s = None then
         map_sum id snd (get_next_audio w
           (if b then s\<lparr>queue := a # queue s\<rparr> else s\<lparr>queue := queue s @ [a]\<rparr>))
       else Inr (post_event Queue_update
           (if b then s\<lparr>queue := a # queue s\<rparr> else s\<lparr>queue := queue s @ [a]\<rparr>)))"
  using assms
  by (cases b) (auto simp: add_to_queue_def accepted_def Let_def split: sum.splits)

lemma add_to_queue_Inr:
  assumes "add_to_queue w s v b = Inr s'"
  obtains "\<not> accepted s v" "s' = s"
  | a where "v = PyAudio a" "is_below_max_queue_size s" "current_audio s \<noteq> None"
      "s' = post_event Queue_update
              (if b then s\<lparr>queue := a # queue s\<rparr> else s\<lparr>queue := queue s @ [a]\<rparr>)"
  | a r where "v = PyAudio a" "is_below_max_queue_size s" "current_audio s = None"
      "get_next_audio w (if b then s\<lparr>queue := a # queue s\<rparr> else s\<lparr>queue := queue s @ [a]\<rparr>)
         = Inr (r, s')"
proof (cases "accepted s v")
  case False
  then have "s' = s" using assms add_to_queue_rejected by simp
  with False show ?thesis by (rule that(1))
next
  case True
  then obtain a where v: "v = PyAudio a" and below: "is_below_max_queue_size s"
    by (cases v) (simp_all add: accepted_def)
  let ?s1 = "if b then s\<lparr>queue := a # queue s\<rparr> else s\<lparr>queue := queue s @ [a]\<rparr>"
  show ?thesis
  proof (cases "current_audio s")
    case None
    then have "map_sum id snd (get_next_audio w ?s1) = Inr s'"
      using assms True v add_to_queue_unfold [of s a w b] by simp
    then obtain r where "get_next_audio w ?s1 = Inr (r, s')"
      by (cases "get_next_audio w ?s1") auto
    then show ?thesis using v below None by (intro that(3))
  next
    case (Some c)
    then have "s' = post_event Queue_update ?s1"
      using assms True v add_to_queue_unfold [of s a w b] by simp
    then show ?thesis using v below Some by (intro that(2)) simp_all
  qed
qed

lemma add_to_queue_accepted:
  assumes "accepted s v" "add_to_queue w s v b = Inr s'"
  shows "current_audio s' \<noteq> None \<and>
    length (queue s') + (if current_audio s = None then 1 else 0) = length (queue s) + 1"
  using assms(2)
proof (cases rule: add_to_queue_Inr)
  case 1
  with assms(1) show ?thesis by simp
next
  case (2 a)
  then show ?thesis by auto
next
  case (3 a r)
  from get_next_audio_step [OF 3(4)] 3(3) show ?thesis
    by (cases b) (simp_all split: list.splits)
qed

lemma add_to_queue_bounds:
  assumes "add_to_queue w s v b = Inr s'"
  shows "max_queue_size s' = max_queue_size s"
    "max_previous_queue_size s' = max_previous_queue_size s"
proof -
  have "max_queue_size s' = max_queue_size s \<and>
      max_previous_queue_size s' = max_previous_queue_size s"
    using assms
  proof (cases rule: add_to_queue_Inr)
    case (3 a r)
    from get_next_audio_bounds [OF 3(4)] show ?thesis by (cases b) simp_all
  qed simp_all
  then show "max_queue_size s' = max_queue_size s"
    "max_previous_queue_size s' = max_previous_queue_size s"
    by simp_all
qed


lemma add_to_queue_no_aliasing:
  assumes "add_to_queue w s v b = Inr s'" "no_aliasing s"
    and "\<And>a. v = PyAudio a \<Longrightarrow> a \<notin> set (held s)"
  shows "no_aliasing s'"
  using assms(1)
proof (cases rule: add_to_queue_Inr)
  case 1
  with assms(2) show ?thesis by simp
next
  case (2 a)
  with assms(2) assms(3) [of a] show ?thesis
    by (auto simp: no_aliasing_def held_def)
next
  case (3 a r)
  have "no_aliasing (if b then s\<lparr>queue := a # queue s\<rparr> else s\<lparr>queue := queue s @ [a]\<rparr>)"
    using assms(2) assms(3) [OF 3(1)] by (auto simp: no_aliasing_def held_def)
  with 3(4) show ?thesis by (rule get_next_audio_no_aliasing)
qed

lemma add_to_queue_total:
  assumes "promotion_safe w s"
  shows "\<exists>s'. add_to_queue w s v b = Inr s' \<and> promotion_safe w s'"
proof (cases "accepted s v")
  case False
  with assms show ?thesis by (simp add: add_to_queue_rejected)
next
  case True
  then obtain a where v: "v = PyAudio a" by (cases v) (simp_all add: accepted_def)
  let ?s1 = "if b then s\<lparr>queue := a # queue s\<rparr> else s\<lparr>queue := queue s @ [a]\<rparr>"
  have safe: "promotion_safe w ?s1" using assms by simp
  show ?thesis
  proof (cases "current_audio s")
    case None
    then have "current_audio ?s1 = None" by simp
    then obtain r s' where "get_next_audio w ?s1 = Inr (r, s')" "promotion_safe w s'"
      using get_next_audio_total [of ?s1 w] safe by blast
    then show ?thesis using True v None add_to_queue_unfold [of s a w b] by simp
  next
    case (Some c)
    then show ?thesis using True v safe add_to_queue_unfold [of s a w b] by simp
  qed
qed

section \<open>The other operations\<close>

lemma get_previous_audio_bounds:
  assumes "get_previous_audio w s = Inr (r, s')"
  shows "max_queue_size s' = max_queue_size s"
    "max_previous_queue_size s' = max_previous_queue_size s"
proof -
  have "max_queue_size s' = max_queue_size s \<and>
      max_previous_queue_size s' = max_previous_queue_size s"
    using assms
  proof (cases rule: get_previous_audio_Inr)
    case (2 p x)
    from set_current_audio_Inr(3,4) [OF 2(3)] show ?thesis
      by (simp split: option.splits)
  qed simp_all
  then show "max_queue_size s' = max_queue_size s"
    "max_previous_queue_size s' = max_previous_queue_size s"
    by simp_all
qed

lemma get_previous_audio_total:
  assumes "promotion_safe w s"
  shows "\<exists>r s'. get_previous_audio w s = Inr (r, s') \<and> promotion_safe w s'"
proof (cases "previous_queue s" rule: rev_cases)
  case Nil
  with assms show ?thesis by (simp add: get_previous_audio_def)
next
  case (snoc p x)
  let ?s2 = "(case current_audio s of Some c \<Rightarrow> s\<lparr>queue := c # queue s\<rparr> | None \<Rightarrow> s)
               \<lparr>previous_queue := p\<rparr>"
  have "promotion_safe w ?s2" using assms by (simp split: option.splits)
  then obtain s' where "set_current_audio w ?s2 (Some x) = Inr s'" "promotion_safe w s'"
    using set_current_audio_safe by blast
  moreover have "previous_queue
      (case current_audio s of Some c \<Rightarrow> s\<lparr>queue := c # queue s\<rparr> | None \<Rightarrow> s) = p @ [x]"
    using snoc by (simp split: option.splits)
  ultimately show ?thesis using snoc by (simp add: get_previous_audio_def Let_def)
qed

lemma restart_queue_Inr:
  assumes "restart_queue w s = Inr s'"
  obtains s1 r where
    "add_to_queue w s (case current_audio s of None \<Rightarrow> PyNone | Some c \<Rightarrow> PyAudio c) True
       = Inr s1"
    "get_next_audio w (s1\<lparr>queue := previous_queue s1 @ queue s1, previous_queue := []\<rparr>)
       = Inr (r, s')"
  using assms
  by (auto simp: restart_queue_def append_left_def Let_def split: sum.splits)

lemma restart_queue_bounds:
  assumes "restart_queue w s = Inr s'"
  shows "max_queue_size s' = max_queue_size s"
    "max_previous_queue_size s' = max_previous_queue_size s"
proof -
  from assms obtain s1 r where
    a: "add_to_queue w s (case current_audio s of None \<Rightarrow> PyNone | Some c \<Rightarrow> PyAudio c) True
          = Inr s1"
    and g: "get_next_audio w (s1\<lparr>queue := previous_queue s1 @ queue s1, previous_queue := []\<rparr>)
            = Inr (r, s')"
    by (rule restart_queue_Inr)
  show "max_queue_size s' = max_queue_size s"
    using get_next_audio_bounds(1) [OF g] add_to_queue_bounds(1) [OF a] by simp
  show "max_previous_queue_size s' = max_previous_queue_size s"
    using get_next_audio_bounds(2) [OF g] add_to_queue_bounds(2) [OF a] by simp
qed

lemma restart_queue_total:
  assumes "0 \<le> max_previous_queue_size s" "promotion_safe w s"
  shows "\<exists>s'. restart_queue w s = Inr s' \<and> promotion_safe w s'"
proof -
  obtain s1 where
    a: "add_to_queue w s (case current_audio s of None \<Rightarrow> PyNone | Some c \<Rightarrow> PyAudio c) True
          = Inr s1" and safe: "promotion_safe w s1"
    using add_to_queue_total [OF assms(2)] by blast
  let ?s3 = "s1\<lparr>queue := previous_queue s1 @ queue s1, previous_queue := []\<rparr>"
  have "0 \<le> max_previous_queue_size ?s3"
    using add_to_queue_bounds(2) [OF a] assms(1) by simp
  moreover have "promotion_safe w ?s3" using safe by simp
  ultimately obtain r s' where "get_next_audio w ?s3 = Inr (r, s')" "promotion_safe w s'"
    using get_next_audio_total [of ?s3 w] by blast
  with a show ?thesis by (simp add: restart_queue_def append_left_def)
qed

lemma restart_queue_no_aliasing:
  assumes "restart_queue w s = Inr s'" "no_aliasing s"
    and "current_audio s = None \<or> \<not> is_below_max_queue_size s"
  shows "no_aliasing s'"
proof -
  have a: "append_left w s (case current_audio s of None \<Rightarrow> PyNone | Some c \<Rightarrow> PyAudio c) = Inr s"
    using assms(3) by (auto simp: append_left_def add_to_queue_def split: option.splits)
  define s3 where "s3 = s\<lparr>queue := previous_queue s @ queue s, previous_queue := []\<rparr>"
  from assms(1) a obtain r where "get_next_audio w s3 = Inr (r, s')"
    by (auto simp: restart_queue_def s3_def Let_def split: sum.splits)
  moreover have "no_aliasing s3"
    using assms(2) by (auto simp: s3_def no_aliasing_def held_def)
  ultimately show ?thesis using get_next_audio_no_aliasing by blast
qed

lemma remove_current_audio_Inr:
  assumes "remove_current_audio w s = Inr (t, s')"
  obtains "current_audio s = None" "s' = s"
  | r where "get_next_audio w (s\<lparr>current_audio := None\<rparr>) = Inr (r, s')"
  using assms
  by (cases "current_audio s")
    (auto simp: remove_current_audio_def get_current_audio_def Let_def split: sum.splits)

lemma remove_current_audio_total:
  assumes "promotion_safe w s"
  shows "\<exists>t s'. remove_current_audio w s = Inr (t, s') \<and> promotion_safe w s'"
proof (cases "current_audio s")
  case None
  with assms show ?thesis by (simp add: remove_current_audio_def get_current_audio_def)
next
  case (Some c)
  have "\<exists>r s'. get_next_audio w (s\<lparr>current_audio := None\<rparr>) = Inr (r, s') \<and> promotion_safe w s'"
    using assms by (intro get_next_audio_total) simp_all
  then obtain r s' where "get_next_audio w (s\<lparr>current_audio := None\<rparr>) = Inr (r, s')"
    "promotion_safe w s'"
    by blast
  with Some show ?thesis by (simp add: remove_current_audio_def get_current_audio_def)
qed

lemma remove_current_audio_bounds:
  assumes "remove_current_audio w s = Inr (t, s')"
  shows "max_queue_size s' = max_queue_size s"
    "max_previous_queue_size s' = max_previous_queue_size s"
    "length (queue s') \<le> length (queue s)"
proof -
  have "max_queue_size s' = max_queue_size s \<and>
      max_previous_queue_size s' = max_previous_queue_size s \<and>
      length (queue s') \<le> length (queue s)"
    using assms
  proof (cases rule: remove_current_audio_Inr)
    case (2 r)
    from get_next_audio_bounds [OF 2] show ?thesis by simp
  qed simp_all
  then show "max_queue_size s' = max_queue_size s"
    "max_previous_queue_size s' = max_previous_queue_size s"
    "length (queue s') \<le> length (queue s)"
    by simp_all
qed

lemma remove_current_audio_no_aliasing:
  assumes "remove_current_audio w s = Inr (t, s')" "no_aliasing s"
  shows "no_aliasing s'"
  using assms(1)
proof (cases rule: remove_current_audio_Inr)
  case 1
  with assms(2) show ?thesis by simp
next
  case (2 r)
  moreover have "no_aliasing (s\<lparr>current_audio := None\<rparr>)"
    using assms(2) by (auto simp: no_aliasing_def held_def occupant_def)
  ultimately show ?thesis using get_next_audio_no_aliasing by blast
qed

lemma reset_queue_fields:
  "max_queue_size (reset_queue s) = max_queue_size s"
  "max_previous_queue_size (reset_queue s) = max_previous_queue_size s"
  "queue (reset_queue s) = []"
  "no_aliasing (reset_queue s)"
  "promotion_safe w (reset_queue s) = promotion_safe w s"
  by (simp_all add: reset_queue_def clear_next_queue_def clear_previous_queue_def
      no_aliasing_def held_def occupant_def)

section \<open>Sequences of operations\<close>

lemma apply_operation_no_aliasing:
  assumes "apply_operation w s x = Inr s'" "no_aliasing s" "respects_ownership s x"
  shows "no_aliasing s'"
proof (cases x)
  case (Append v)
  with assms show ?thesis
    by (cases v) (auto simp: append_def intro: add_to_queue_no_aliasing)
next
  case (Append_left v)
  with assms show ?thesis
    by (cases v) (auto simp: append_left_def intro: add_to_queue_no_aliasing)
next
  case Get_next_audio
  with assms show ?thesis
    by (cases "get_next_audio w s") (auto dest: get_next_audio_no_aliasing)
next
  case Get_previous_audio
  with assms show ?thesis
    by (cases "get_previous_audio w s") (auto dest: get_previous_audio_no_aliasing)
next
  case Restart_queue
  with assms show ?thesis by (auto dest: restart_queue_no_aliasing)
next
  case Remove_current_audio
  with assms show ?thesis
    by (cases "remove_current_audio w s") (auto dest: remove_current_audio_no_aliasing)
next
  case Reset_queue
  with assms show ?thesis by (auto simp: reset_queue_fields)
qed

lemma run_no_aliasing:
  "run w s xs = Inr s' \<Longrightarrow> no_aliasing s \<Longrightarrow> admissible w s xs \<Longrightarrow> no_aliasing s'"
proof (induction xs arbitrary: s)
  case Nil
  then show ?case by simp
next
  case (Cons x xs)
  then show ?case
    by (auto split: sum.splits dest: apply_operation_no_aliasing)
qed

lemma apply_operation_bounds:
  assumes "apply_operation w s x = Inr s'"
  shows "max_queue_size s' = max_queue_size s \<and>
         max_previous_queue_size s' = max_previous_queue_size s"
proof (cases x)
  case Get_next_audio
  with assms show ?thesis
    by (cases "get_next_audio w s") (auto simp: get_next_audio_bounds)
next
  case Get_previous_audio
  with assms show ?thesis
    by (cases "get_previous_audio w s") (auto simp: get_previous_audio_bounds)
next
  case Remove_current_audio
  with assms show ?thesis
    by (cases "remove_current_audio w s") (auto simp: remove_current_audio_bounds)
qed (use assms in \<open>auto simp: append_def append_left_def add_to_queue_bounds restart_queue_bounds
       reset_queue_fields\<close>)

lemma apply_operation_total:
  assumes "0 \<le> max_previous_queue_size s" "promotion_safe w s"
  shows "\<exists>s'. apply_operation w s x = Inr s' \<and> promotion_safe w s'"
proof (cases x)
  case Get_next_audio
  obtain r s' where "get_next_audio w s = Inr (r, s')" "promotion_safe w s'"
    using get_next_audio_total [of s w] assms by blast
  with Get_next_audio show ?thesis by simp
next
  case Get_previous_audio
  obtain r s' where "get_previous_audio w s = Inr (r, s')" "promotion_safe w s'"
    using get_previous_audio_total [OF assms(2)] by blast
  with Get_previous_audio show ?thesis by simp
next
  case Remove_current_audio
  obtain t s' where "remove_current_audio w s = Inr (t, s')" "promotion_safe w s'"
    using remove_current_audio_total [OF assms(2)] by blast
  with Remove_current_audio show ?thesis by simp
next
  case Restart_queue
  with assms show ?thesis by (simp add: restart_queue_total)
next
  case Reset_queue
  with assms show ?thesis by (simp add: reset_queue_fields)
qed (use assms in \<open>simp_all add: append_def append_left_def add_to_queue_total\<close>)

lemma run_total:
  "0 \<le> max_previous_queue_size s \<Longrightarrow> promotion_safe w s \<Longrightarrow> \<exists>s'. run w s xs = Inr s'"
proof (induction xs arbitrary: s)
  case Nil
  then show ?case by simp
next
  case (Cons x xs)
  obtain s1 where s1: "apply_operation w s x = Inr s1" "promotion_safe w s1"
    using apply_operation_total Cons.prems by blast
  then have "0 \<le> max_previous_queue_size s1"
    using apply_operation_bounds Cons.prems by simp
  then show ?case using Cons.IH s1 by simp
qed



section \<open>Draining\<close>



section \<open>Sequences of appends\<close>

lemma appends_length:
  "appends w s cs = Inr (s', n) \<Longrightarrow>
   length (queue s') + (if current_audio s = None \<and> 0 < n then 1 else 0) = length (queue s) + n"
proof (induction cs arbitrary: s n)
  case Nil
  then show ?case by simp
next
  case (Cons call cs)
  obtain v b where call: "call = (v, b)" by (cases call)
  from Cons.prems call obtain s1 m where
    s1: "add_to_queue w s v b = Inr s1" and m: "appends w s1 cs = Inr (s', m)"
    and n: "n = (if accepted s v then 1 else 0) + m"
    by (auto split: sum.splits)
  note ih = Cons.IH [OF m]
  show ?case
  proof (cases "accepted s v")
    case False
    then have "s1 = s" using s1 add_to_queue_rejected by simp
    with ih n False show ?thesis by simp
  next
    case True
    from add_to_queue_accepted [OF True s1] ih n True show ?thesis
      by (simp split: if_splits)
  qed
qed

lemma appends_total:
  "promotion_safe w s \<Longrightarrow> \<exists>s' n. appends w s cs = Inr (s', n)"
proof (induction cs arbitrary: s)
  case Nil
  then show ?case by simp
next
  case (Cons call cs)
  obtain v b where call: "call = (v, b)" by (cases call)
  obtain s1 where s1: "add_to_queue w s v b = Inr s1" "promotion_safe w s1"
    using add_to_queue_total [OF Cons.prems] by blast
  obtain s' n where "appends w s1 cs = Inr (s', n)"
    using Cons.IH [OF s1(2)] by blast
  with s1(1) call show ?case by simp
qed

section \<open>Evaluation of test runs\<close>

lemmas eval_defs = append_def append_left_def add_to_queue_def is_below_max_queue_size_def
  get_next_audio_def get_previous_audio_def add_to_previous_queue_def restart_queue_def
  remove_current_audio_def get_current_audio_def reset_queue_def clear_next_queue_def
  clear_previous_queue_def set_current_audio_def is_stale_def refresh_def set_end_time_def
  timedelta_def datetime_plus_def post_event_def init_def quiet_world_def schema_world_def
  tracks_def tracks_no_scheme_def tracks_endless_def track_def Let_def
  no_aliasing_def held_def occupant_def queue_within_bound_def history_within_bound_def
  then_drain_def played_tracks_def accepted_def

lemma quiet_world_safe: "promotion_safe quiet_world (init mq mp tracks)"
  by (simp add: promotion_safe_def end_time_exists_def quiet_world_def init_def tracks_def
      track_def)

section \<open>Invariants of the containers\<close>

text \<open>
  The claim C1 as stated (after any sequence of operations no \<^verbatim>\<open>Audio\<close> object is in two
  of forward queue, history and current slot) fails on three runs. Appending the object that
  is already playing puts it into the forward queue as well: nothing in \<^verbatim>\<open>_add_to_queue\<close>
  looks for it. \<^verbatim>\<open>restart_queue\<close>, called with track 0 playing and track 1 queued,
  re-enqueues track 0, lets \<^verbatim>\<open>get_next_audio\<close> push it to the history too and pops it
  back into the current slot: track 0 is then current and in the history. And when
  \<^verbatim>\<open>get_next_audio\<close> is aborted by an exception of the probe (track 1 has a stream URL
  without scheme), track 0 has been pushed to the history and is still in the current slot.
\<close>

theorem aliasing_counterexample:
  "map_sum id held (run quiet_world (init 10 3 tracks) [Append (PyAudio 0), Append (PyAudio 0)])
     = Inr [0, 0]
   \<and> map_sum id no_aliasing
       (run quiet_world (init 10 3 tracks) [Append (PyAudio 0), Append (PyAudio 0)]) = Inr False
   \<and> map_sum id previous_queue
       (run quiet_world (init 10 3 tracks) [Append (PyAudio 0), Append (PyAudio 1), Restart_queue])
     = Inr [0]
   \<and> map_sum id current_audio
       (run quiet_world (init 10 3 tracks) [Append (PyAudio 0), Append (PyAudio 1), Restart_queue])
     = Inr (Some 0)
   \<and> map_sum id no_aliasing
       (run quiet_world (init 10 3 tracks) [Append (PyAudio 0), Append (PyAudio 1), Restart_queue])
     = Inr False
   \<and> map_sum (map_prod id previous_queue) id
       (run schema_world (init 10 3 tracks_no_scheme)
          [Append (PyAudio 0), Append (PyAudio 1), Get_next_audio])
     = Inl (MissingSchema, [0])
   \<and> map_sum (map_prod id current_audio) id
       (run schema_world (init 10 3 tracks_no_scheme)
          [Append (PyAudio 0), Append (PyAudio 1), Get_next_audio])
     = Inl (MissingSchema, Some 0)"
  by (simp add: eval_defs)

text \<open>
  C1, amended. Start from a new \<^verbatim>\<open>AudioQueue\<close> and perform any operations that respect
  ownership: every \<^verbatim>\<open>append\<close>/\<^verbatim>\<open>append_left\<close> brings an object the queue does not hold
  yet, and \<^verbatim>\<open>restart_queue\<close> is called only when it does not re-enqueue the current track.
  Then every state reached by such a run in which no call raises references no object twice
  from forward queue, history and current slot. And no call of a run raises when
  \<^verbatim>\<open>max_previous_queue_size\<close> is not negative and promotion cannot fail: no probe raises an
  exception that \<^verbatim>\<open>is_stale\<close> does not catch, and every duration gives an end time within
  the range of a datetime.
\<close>

theorem no_aliasing_reachable:
  assumes "admissible w (init mq mp h) xs"
  shows "(\<forall>s. run w (init mq mp h) xs = Inr s \<longrightarrow> no_aliasing s)
       \<and> (0 \<le> mp \<and> promotion_safe w (init mq mp h) \<longrightarrow>
            (\<exists>s. run w (init mq mp h) xs = Inr s))"
proof -
  have "no_aliasing (init mq mp h)"
    by (simp add: no_aliasing_def held_def occupant_def init_def)
  then have "\<forall>s. run w (init mq mp h) xs = Inr s \<longrightarrow> no_aliasing s"
    using run_no_aliasing assms by blast
  moreover have "\<exists>s. run w (init mq mp h) xs = Inr s"
    if "0 \<le> mp" "promotion_safe w (init mq mp h)"
    using that run_total [of "init mq mp h" w xs] by (simp add: init_def)
  ultimately show ?thesis by blast
qed

theorem no_aliasing_reachable_witness:
  "admissible quiet_world (init 10 3 tracks)
     [Append (PyAudio 0), Append (PyAudio 1), Append_left (PyAudio 2), Append PyNone,
      Get_next_audio, Get_previous_audio, Remove_current_audio, Get_next_audio,
      Get_next_audio, Restart_queue, Reset_queue]
   \<and> (0::int) \<le> 3
   \<and> promotion_safe quiet_world (init 10 3 tracks)
   \<and> map_sum id no_aliasing
       (run quiet_world (init 10 3 tracks)
          [Append (PyAudio 0), Append (PyAudio 1), Append_left (PyAudio 2), Append PyNone,
           Get_next_audio, Get_previous_audio, Remove_current_audio, Get_next_audio,
           Get_next_audio, Restart_queue, Reset_queue]) = Inr True"
proof -
  let ?xs = "[Append (PyAudio 0), Append (PyAudio 1), Append_left (PyAudio 2), Append PyNone,
      Get_next_audio, Get_previous_audio, Remove_current_audio, Get_next_audio,
      Get_next_audio, Restart_queue, Reset_queue]"
  have adm: "admissible quiet_world (init 10 3 tracks) ?xs"
    by (simp add: eval_defs)
  from no_aliasing_reachable [OF adm] quiet_world_safe [of 10 3]
  obtain s where "run quiet_world (init 10 3 tracks) ?xs = Inr s" "no_aliasing s"
    by auto
  then show ?thesis using adm quiet_world_safe [of 10 3] by simp
qed

text \<open>
  C2. The history is meant never to be longer than \<^verbatim>\<open>max_previous_queue_size\<close>. With a
  bound of 1, three tracks appended and two calls of \<^verbatim>\<open>get_next_audio\<close>, the history
  holds two tracks: \<^verbatim>\<open>_add_to_previous_queue\<close> evicts only when the length is already
  greater than the bound, so the history settles at the bound plus one.
\<close>

theorem history_exceeds_bound:
  "map_sum id previous_queue
     (run quiet_world (init 10 1 tracks)
        [Append (PyAudio 0), Append (PyAudio 1), Append (PyAudio 2),
         Get_next_audio, Get_next_audio]) = Inr [0, 1]
   \<and> map_sum id history_within_bound
     (run quiet_world (init 10 1 tracks)
        [Append (PyAudio 0), Append (PyAudio 1), Append (PyAudio 2),
         Get_next_audio, Get_next_audio]) = Inr False"
  by (simp add: eval_defs)




section \<open>Promotion to the current slot\<close>




text \<open>
  C8. When the resolver returns an entry, \<^verbatim>\<open>refresh\<close> returns \<^verbatim>\<open>True\<close> and the object
  carries the entry's stream URL, webpage URL, title, duration and thumbnail; when the
  resolver returns nothing, \<^verbatim>\<open>refresh\<close> returns \<^verbatim>\<open>False\<close> and no object has changed.
  In both cases \<^verbatim>\<open>refresh\<close> returns: it has no branch that raises.
\<close>

theorem refresh_outcome:
  "(get_audio w (trace s) (webpage_url (heap s a)) = Some e \<longrightarrow>
      fst (refresh w s a)
      \<and> audio_url (heap (snd (refresh w s a)) a) = entry_audio_url e
      \<and> webpage_url (heap (snd (refresh w s a)) a) = entry_webpage_url e
      \<and> title (heap (snd (refresh w s a)) a) = entry_title e
      \<and> length_audio (heap (snd (refresh w s a)) a) = entry_length e
      \<and> thumbnail (heap (snd (refresh w s a)) a) = entry_thumbnail e)
   \<and> (get_audio w (trace s) (webpage_url (heap s a)) = None \<longrightarrow>
      \<not> fst (refresh w s a) \<and> heap (snd (refresh w s a)) = heap s)"
  by (simp add: refresh_def Let_def)

theorem refresh_outcome_witness:
  "get_audio stale_world (trace (init 10 3 tracks)) (webpage_url (heap (init 10 3 tracks) 0))
     = Some fresh_entry
   \<and> fst (refresh stale_world (init 10 3 tracks) 0)
   \<and> audio_url (heap (snd (refresh stale_world (init 10 3 tracks) 0)) 0) = ''https://cdn/b''
   \<and> webpage_url (heap (snd (refresh stale_world (init 10 3 tracks) 0)) 0) = ''https://site/b''
   \<and> title (heap (snd (refresh stale_world (init 10 3 tracks) 0)) 0) = ''b''
   \<and> length_audio (heap (snd (refresh stale_world (init 10 3 tracks) 0)) 0) = Float 240
   \<and> thumbnail (heap (snd (refresh stale_world (init 10 3 tracks) 0)) 0) = ''https://cdn/b.jpg''
   \<and> get_audio offline_world (trace (init 10 3 tracks)) (webpage_url (heap (init 10 3 tracks) 0))
     = None
   \<and> \<not> fst (refresh offline_world (init 10 3 tracks) 0)
   \<and> heap (snd (refresh offline_world (init 10 3 tracks) 0)) = tracks"
proof -
  have a: "get_audio stale_world (trace (init 10 3 tracks))
             (webpage_url (heap (init 10 3 tracks) 0)) = Some fresh_entry"
    by (simp add: stale_world_def)
  have b: "get_audio offline_world (trace (init 10 3 tracks))
             (webpage_url (heap (init 10 3 tracks) 0)) = None"
    by (simp add: offline_world_def)
  show ?thesis
    using a b
      refresh_outcome [of stale_world "init 10 3 tracks" 0 fresh_entry]
      refresh_outcome [of offline_world "init 10 3 tracks" 0 fresh_entry]
    by (simp add: fresh_entry_def init_def)
qed

section \<open>Navigation\<close>

text \<open>
  C9. With an empty history, \<^verbatim>\<open>get_previous_audio\<close> returns \<^verbatim>\<open>None\<close> without raising and
  leaves the whole state as it was: forward queue, history, current slot, every
  \<^verbatim>\<open>Audio\<close> object, and the trace of effects, so that no event is published.
\<close>

theorem get_previous_audio_empty_history:
  "previous_queue s = [] \<Longrightarrow> get_previous_audio w s = Inr (None, s)"
  by (simp add: get_previous_audio_def)

theorem get_previous_audio_empty_history_witness:
  "previous_queue (init 10 3 tracks) = []
   \<and> get_previous_audio quiet_world (init 10 3 tracks) = Inr (None, init 10 3 tracks)"
  using get_previous_audio_empty_history [of "init 10 3 tracks" quiet_world]
  by (simp add: init_def)




subsection \<open>Restarting and draining\<close>




section \<open>Admission\<close>

text \<open>
  The claim C7 as stated (starting from an empty forward queue, its length equals the number
  of accepted appends) fails on a new \<^verbatim>\<open>AudioQueue\<close>: the first accepted append is
  promoted to the current slot at once, so after one accepted append the forward queue is
  empty, and after two it holds one track. And an accepted append on an idle queue raises
  when the track cannot be promoted (a stream URL without scheme).
\<close>

theorem appends_counterexample:
  "queue (init 10 3 tracks) = []
   \<and> map_sum id (map_prod queue id)
       (appends quiet_world (init 10 3 tracks) [(PyAudio 0, False)]) = Inr ([], 1)
   \<and> map_sum id (map_prod queue id)
       (appends quiet_world (init 10 3 tracks) [(PyAudio 0, False), (PyAudio 1, False)])
       = Inr ([1], 2)
   \<and> map_sum fst id
       (appends schema_world (init 10 3 tracks_no_scheme) [(PyAudio 1, False)])
       = Inl MissingSchema"
  by (simp add: eval_defs)

text \<open>
  C7, amended. For every sequence of \<^verbatim>\<open>append\<close>/\<^verbatim>\<open>append_left\<close> calls starting from an
  empty forward queue in which no call raises, the length of the forward queue is the number
  of accepted appends, less one if the current slot was empty at the start and an append was
  accepted (that track was promoted). No call of the sequence raises when promotion cannot
  fail. Whenever the forward queue is not below \<^verbatim>\<open>max_queue_size\<close>, an append raises
  nothing and leaves the whole state as it was, so the length is unchanged and the rejected
  object is not added anywhere.
\<close>

theorem appends_length_and_rejection:
  "(queue s = [] \<longrightarrow>
      (\<forall>s' n. appends w s cs = Inr (s', n) \<longrightarrow>
         length (queue s') + (if current_audio s = None \<and> 0 < n then 1 else 0) = n))
   \<and> (promotion_safe w s \<longrightarrow> (\<exists>s' n. appends w s cs = Inr (s', n)))
   \<and> (\<not> is_below_max_queue_size s \<longrightarrow> add_to_queue w s v b = Inr s)"
proof -
  have "add_to_queue w s v b = Inr s" if "\<not> is_below_max_queue_size s"
    using that by (intro add_to_queue_rejected) (simp add: accepted_def)
  moreover have "length (queue s') + (if current_audio s = None \<and> 0 < n then 1 else 0) = n"
    if "queue s = []" "appends w s cs = Inr (s', n)" for s' n
    using appends_length [OF that(2)] that(1) by simp
  moreover have "\<exists>s' n. appends w s cs = Inr (s', n)" if "promotion_safe w s"
    using appends_total [OF that] by blast
  ultimately show ?thesis by blast
qed

theorem appends_length_and_rejection_witness:
  "queue (init 2 3 tracks) = []
   \<and> promotion_safe quiet_world (init 2 3 tracks)
   \<and> map_sum id (map_prod queue id)
       (appends quiet_world (init 2 3 tracks)
          [(PyAudio 0, False), (PyAudio 1, False), (PyAudio 2, True), (PyAudio 3, False),
           (PyNone, True)]) = Inr ([2, 1], 3)
   \<and> \<not> is_below_max_queue_size ((init 2 3 tracks)\<lparr>queue := [2, 1], current_audio := Some 0\<rparr>)
   \<and> add_to_queue quiet_world ((init 2 3 tracks)\<lparr>queue := [2, 1], current_audio := Some 0\<rparr>)
        (PyAudio 3) False
      = Inr ((init 2 3 tracks)\<lparr>queue := [2, 1], current_audio := Some 0\<rparr>)"
proof -
  have e: "map_sum id (map_prod queue id)
       (appends quiet_world (init 2 3 tracks)
          [(PyAudio 0, False), (PyAudio 1, False), (PyAudio 2, True), (PyAudio 3, False),
           (PyNone, True)]) = Inr ([2, 1], 3)"
    by (simp add: eval_defs)
  have f: "\<not> is_below_max_queue_size
             ((init 2 3 tracks)\<lparr>queue := [2, 1], current_audio := Some 0\<rparr>)"
    by (simp add: is_below_max_queue_size_def init_def)
  show ?thesis
    using e f quiet_world_safe [of 2 3] appends_length_and_rejection
      [of "(init 2 3 tracks)\<lparr>queue := [2, 1], current_audio := Some 0\<rparr>" quiet_world "[]"
        "PyAudio 3" False]
    by (simp add: init_def)
qed

lemma get_next_audio_idle_outcome:
  assumes "current_audio s = None"
  shows "previous_queue (outcome_state (map_sum id snd (get_next_audio w s))) = previous_queue s
       \<and> queue (outcome_state (map_sum id snd (get_next_audio w s))) = tl (queue s)"
proof (cases "queue s")
  case Nil
  with assms show ?thesis
    by (simp add: get_next_audio_def set_current_audio_None outcome_state_def)
next
  case (Cons x xs)
  show ?thesis
  proof (cases "set_current_audio w (s\<lparr>queue := xs\<rparr>) (Some x)")
    case (Inl err)
    obtain e s' where err: "err = (e, s')" by (cases err)
    from set_current_audio_Inl(1,2) [OF Inl [unfolded err]] Inl err Cons assms
    show ?thesis by (simp add: get_next_audio_def outcome_state_def)
  next
    case (Inr s')
    from set_current_audio_Inr(1,2) [OF Inr] Inr Cons assms
    show ?thesis by (simp add: get_next_audio_def outcome_state_def)
  qed
qed

text \<open>
  C10. For an argument that is not an \<^verbatim>\<open>Audio\<close> object (\<^verbatim>\<open>None\<close> included),
  \<^verbatim>\<open>append\<close> and \<^verbatim>\<open>append_left\<close> raise nothing and leave the whole state as it was:
  forward queue, history, current slot and the trace, so no event is published. So
  \<^verbatim>\<open>restart_queue\<close> with an empty current slot enqueues nothing: however it ends, the
  history is empty and the forward queue is what followed the head of history and forward
  queue; when it returns, that head is current. (It returns when promotion cannot fail.)
\<close>

theorem non_audio_is_not_enqueued:
  "(\<not> isinstance_Audio v \<longrightarrow> append w s v = Inr s \<and> append_left w s v = Inr s)
   \<and> (current_audio s = None \<longrightarrow>
        previous_queue (outcome_state (restart_queue w s)) = []
        \<and> queue (outcome_state (restart_queue w s)) = tl (previous_queue s @ queue s)
        \<and> (\<forall>s'. restart_queue w s = Inr s' \<longrightarrow>
              current_audio s' = (case previous_queue s @ queue s of [] \<Rightarrow> None
                                  | x # xs \<Rightarrow> Some x))
        \<and> (promotion_safe w s \<longrightarrow> (\<exists>s'. restart_queue w s = Inr s')))"
proof -
  have 1: "append w s v = Inr s \<and> append_left w s v = Inr s" if "\<not> isinstance_Audio v"
    using that by (cases v) (simp_all add: append_def append_left_def add_to_queue_def)
  let ?s3 = "s\<lparr>queue := previous_queue s @ queue s, previous_queue := []\<rparr>"
  have r: "restart_queue w s = map_sum id snd (get_next_audio w ?s3)"
    if "current_audio s = None"
    using that
    by (cases "get_next_audio w ?s3")
      (auto simp: restart_queue_def append_left_def add_to_queue_def Let_def)
  have 2: "previous_queue (outcome_state (restart_queue w s)) = []
        \<and> queue (outcome_state (restart_queue w s)) = tl (previous_queue s @ queue s)"
    if idle: "current_audio s = None"
    using get_next_audio_idle_outcome [of ?s3 w] r [OF idle] idle by simp
  have 3: "current_audio s' = (case previous_queue s @ queue s of [] \<Rightarrow> None | x # xs \<Rightarrow> Some x)"
    if idle: "current_audio s = None" and ret: "restart_queue w s = Inr s'" for s'
  proof -
    from ret r [OF idle] obtain x where g: "get_next_audio w ?s3 = Inr (x, s')"
      by (cases "get_next_audio w ?s3") auto
    from get_next_audio_step(1,6) [OF g] show ?thesis by simp
  qed
  have 4: "\<exists>s'. restart_queue w s = Inr s'"
    if idle: "current_audio s = None" and safe: "promotion_safe w s"
  proof -
    have "current_audio ?s3 = None" "promotion_safe w ?s3" using idle safe by simp_all
    then obtain x s' where "get_next_audio w ?s3 = Inr (x, s')"
      using get_next_audio_total [of ?s3 w] by blast
    then show ?thesis using r [OF idle] by simp
  qed
  show ?thesis using 1 2 3 4 by blast
qed

theorem non_audio_is_not_enqueued_witness:
  "\<not> isinstance_Audio PyNone
   \<and> append quiet_world (init 10 3 tracks) PyNone = Inr (init 10 3 tracks)
   \<and> append_left quiet_world (init 10 3 tracks) (PyStr ''x'') = Inr (init 10 3 tracks)
   \<and> current_audio ((init 10 3 tracks)\<lparr>previous_queue := [0, 1]\<rparr>) = None
   \<and> promotion_safe quiet_world ((init 10 3 tracks)\<lparr>previous_queue := [0, 1]\<rparr>)
   \<and> map_sum id queue (restart_queue quiet_world ((init 10 3 tracks)\<lparr>previous_queue := [0, 1]\<rparr>))
       = Inr [1]
   \<and> map_sum id previous_queue
       (restart_queue quiet_world ((init 10 3 tracks)\<lparr>previous_queue := [0, 1]\<rparr>)) = Inr []
   \<and> map_sum id current_audio
       (restart_queue quiet_world ((init 10 3 tracks)\<lparr>previous_queue := [0, 1]\<rparr>))
       = Inr (Some 0)"
proof -
  let ?s = "(init 10 3 tracks)\<lparr>previous_queue := [0, 1]\<rparr>"
  from non_audio_is_not_enqueued [of PyNone quiet_world "init 10 3 tracks"]
  have a: "append quiet_world (init 10 3 tracks) PyNone = Inr (init 10 3 tracks)" by simp
  from non_audio_is_not_enqueued [of "PyStr ''x''" quiet_world "init 10 3 tracks"]
  have b: "append_left quiet_world (init 10 3 tracks) (PyStr ''x'') = Inr (init 10 3 tracks)"
    by simp
  have idle: "current_audio ?s = None" by (simp add: init_def)
  have safe: "promotion_safe quiet_world ?s" using quiet_world_safe [of 10 3] by simp
  from non_audio_is_not_enqueued [of PyNone quiet_world ?s] idle safe
  obtain s' where s': "restart_queue quiet_world ?s = Inr s'"
    and o: "previous_queue (outcome_state (restart_queue quiet_world ?s)) = []"
      "queue (outcome_state (restart_queue quiet_world ?s))
         = tl (previous_queue ?s @ queue ?s)"
    and c: "current_audio s' = (case previous_queue ?s @ queue ?s of [] \<Rightarrow> None
                                 | x # xs \<Rightarrow> Some x)"
    by blast
  from s' o c have "previous_queue s' = [] \<and> queue s' = [1] \<and> current_audio s' = Some 0"
    by (simp add: outcome_state_def init_def)
  then show ?thesis using a b idle safe s' by simp
qed

end
